theory Spec2Isabelle
  imports Main
begin

section \<open>The move-only \<open>Buffer\<close> of \<open>move-only-buffer.cpp\<close>\<close>

text \<open>
  The class \<open>Buffer\<close> owns a memory area obtained from \<open>operator new\<close> and returns it
  with \<open>operator delete\<close>. Its member functions are embedded as functions on an explicit
  program state: a store of the live \<open>Buffer\<close> instances, addressed by the location of
  the instance (\<open>this\<close>, \<open>&other\<close>), and a heap of the live memory blocks. The two
  locations of a member function with a reference parameter are separate arguments, so
  that \<open>this == &other\<close> is a case of the model as it is a case of the code.
\<close>

subsection \<open>Data: the instance, the program state, the failures\<close>

text \<open>
  \<open>char* data_\<close> is \<open>None\<close> for \<open>nullptr\<close> and \<open>Some p\<close> for the block \<open>p\<close>;
  \<open>size_t size_\<close> is a natural number: the class stores sizes and does no arithmetic
  on them. The members are written \<open>buf_data\<close> and \<open>buf_size\<close>.
\<close>

record Buffer =
  buf_data :: "nat option"
  buf_size :: nat

text \<open>
  The program state. Blocks are named by the number of the allocation that made them, so
  a block name is the identity of one allocation and is never used again (\<open>nextblock\<close>
  counts the allocations made so far). \<open>avail\<close> is the number of bytes the allocator
  can still hand out, \<open>garbage\<close> the indeterminate bytes that fresh memory happens to
  hold. \<open>released\<close> logs the blocks given back, \<open>copied\<close> counts the bytes written by
  \<open>std::copy\<close>, and \<open>out\<close> holds the lines written to \<open>std::cout\<close>.
\<close>

record state =
  objs :: "nat \<rightharpoonup> Buffer"
  heap :: "nat \<rightharpoonup> char list"
  nextblock :: nat
  avail :: nat
  garbage :: "nat \<Rightarrow> char"
  released :: "nat list"
  copied :: nat
  out :: "string list"

text \<open>
  \<open>Bad_alloc\<close> is the exception \<open>std::bad_alloc\<close> of \<open>operator new\<close>. The other three
  are the undefined behaviours the code can run into: \<open>operator delete\<close> on a block that
  is not live, a read or write outside a live block, and a member access through a
  reference to no live instance.
\<close>

datatype error = Bad_alloc | Invalid_delete | Invalid_access | Dead_object

subsection \<open>The library functions the class calls\<close>

text \<open>
  \<open>operator new(n)\<close>: throws when the request cannot be satisfied, otherwise returns a
  block of \<open>n\<close> uninitialised bytes that no earlier allocation returned.
\<close>

definition operator_new :: "nat \<Rightarrow> state \<Rightarrow> error + (nat \<times> state)" where
  "operator_new n s =
     (if avail s < n then Inl Bad_alloc
      else Inr (nextblock s,
                s\<lparr>heap := (heap s)(nextblock s \<mapsto> map (garbage s) [0..<n]),
                  nextblock := Suc (nextblock s),
                  avail := avail s - n\<rparr>))"

text \<open>
  \<open>operator delete(p)\<close>: nothing for \<open>nullptr\<close>; a live block is given back; anything
  else (a block released before) is undefined.
\<close>

fun operator_delete :: "nat option \<Rightarrow> state \<Rightarrow> error + state" where
  "operator_delete None s = Inr s"
| "operator_delete (Some p) s =
     (case heap s p of
        None \<Rightarrow> Inl Invalid_delete
      | Some bs \<Rightarrow> Inr (s\<lparr>heap := (heap s)(p := None),
                         avail := avail s + length bs,
                         released := released s @ [p]\<rparr>))"

text \<open>
  \<open>strlen(str)\<close>, on the bytes of memory that start at \<open>str\<close>: the number of bytes before
  the first NUL; undefined when there is none.
\<close>

definition strlen :: "char list \<Rightarrow> error + nat" where
  "strlen m =
     (if CHR 0x00 \<in> set m then Inr (length (takeWhile (\<lambda>c. c \<noteq> CHR 0x00) m))
      else Inl Invalid_access)"

text \<open>
  \<open>std::copy(first, first + n, d)\<close> from the memory \<open>m\<close> at \<open>first\<close> into the block
  \<open>d\<close>: the first \<open>n\<close> bytes of the block are overwritten.
\<close>

fun std_copy :: "char list \<Rightarrow> nat \<Rightarrow> nat option \<Rightarrow> state \<Rightarrow> error + state" where
  "std_copy m n None s = (if n = 0 then Inr s else Inl Invalid_access)"
| "std_copy m n (Some d) s =
     (case heap s d of
        None \<Rightarrow> Inl Invalid_access
      | Some bs \<Rightarrow>
          if n \<le> length m \<and> n \<le> length bs
          then Inr (s\<lparr>heap := (heap s)(d \<mapsto> take n m @ drop n bs),
                      copied := copied s + n\<rparr>)
          else Inl Invalid_access)"

text \<open>
  \<open>std::string(p, n)\<close>: the \<open>n\<close> bytes at \<open>p\<close>. No byte is read when \<open>n = 0\<close>, also
  for \<open>nullptr\<close>.
\<close>

fun std_string :: "nat option \<Rightarrow> nat \<Rightarrow> state \<Rightarrow> error + string" where
  "std_string None n s = (if n = 0 then Inr [] else Inl Invalid_access)"
| "std_string (Some p) n s =
     (case heap s p of
        None \<Rightarrow> Inl Invalid_access
      | Some bs \<Rightarrow> if n \<le> length bs then Inr (take n bs) else Inl Invalid_access)"

subsection \<open>The member functions of \<open>Buffer\<close>\<close>

text \<open>Assignments to the members of the instance at a location.\<close>

definition set_data :: "nat \<Rightarrow> nat option \<Rightarrow> state \<Rightarrow> state" where
  "set_data a p s =
     (case objs s a of None \<Rightarrow> s
      | Some b \<Rightarrow> s\<lparr>objs := (objs s)(a \<mapsto> b\<lparr>buf_data := p\<rparr>)\<rparr>)"

definition set_size :: "nat \<Rightarrow> nat \<Rightarrow> state \<Rightarrow> state" where
  "set_size a n s =
     (case objs s a of None \<Rightarrow> s
      | Some b \<Rightarrow> s\<lparr>objs := (objs s)(a \<mapsto> b\<lparr>buf_size := n\<rparr>)\<rparr>)"

text \<open>
  \<open>explicit Buffer(size_t n) : data_(operator new(n)), size_(n) {}\<close>.
  When \<open>operator new\<close> throws, no instance comes to exist and the exception leaves the
  constructor.
\<close>

definition Buffer_n :: "nat \<Rightarrow> nat \<Rightarrow> state \<Rightarrow> error + state" where
  "Buffer_n this n s =
     (case operator_new n s of
        Inl e \<Rightarrow> Inl e
      | Inr (p, s1) \<Rightarrow>
          Inr (s1\<lparr>objs := (objs s1)(this \<mapsto> \<lparr>buf_data = Some p, buf_size = n\<rparr>)\<rparr>))"

text \<open>
  \<open>explicit Buffer(const char* str) : Buffer(strlen(str))
     { std::copy(str, str + size_, data_); }\<close>, with \<open>str\<close> given by the bytes of memory
  that start there.
\<close>

definition Buffer_str :: "nat \<Rightarrow> char list \<Rightarrow> state \<Rightarrow> error + state" where
  "Buffer_str this str s =
     (case strlen str of
        Inl e \<Rightarrow> Inl e
      | Inr n \<Rightarrow>
          (case Buffer_n this n s of
             Inl e \<Rightarrow> Inl e
           | Inr s1 \<Rightarrow>
               (case objs s1 this of
                  None \<Rightarrow> Inl Dead_object
                | Some b \<Rightarrow> std_copy str (buf_size b) (buf_data b) s1)))"

text \<open>
  \<open>Buffer(Buffer&& other) noexcept : data_(other.data_), size_(other.size_)
     { other.data_ = nullptr; other.size_ = 0; }\<close>
  The instance under construction is a new one, so a program runs this with
  \<open>this\<close> different from \<open>&other\<close> (see \<open>step\<close> below); the function is meant for
  that case only.
\<close>

definition Buffer_move :: "nat \<Rightarrow> nat \<Rightarrow> state \<Rightarrow> error + state" where
  "Buffer_move this other s =
     (case objs s other of
        None \<Rightarrow> Inl Dead_object
      | Some b \<Rightarrow>
          Inr (set_size other 0
                (set_data other None
                  (s\<lparr>objs := (objs s)(this \<mapsto> \<lparr>buf_data = buf_data b, buf_size = buf_size b\<rparr>)\<rparr>))))"

text \<open>
  \<open>Buffer& operator=(Buffer&& other) noexcept\<close>: the guard \<open>this == &other\<close>, then
  \<open>operator delete(data_)\<close> and the four assignments.
\<close>

definition Buffer_move_assign :: "nat \<Rightarrow> nat \<Rightarrow> state \<Rightarrow> error + state" where
  "Buffer_move_assign this other s =
     (if this = other then Inr s
      else
        (case objs s this of
           None \<Rightarrow> Inl Dead_object
         | Some a \<Rightarrow>
             (case operator_delete (buf_data a) s of
                Inl e \<Rightarrow> Inl e
              | Inr s1 \<Rightarrow>
                  (case objs s1 other of
                     None \<Rightarrow> Inl Dead_object
                   | Some b \<Rightarrow>
                       Inr (set_size other 0
                             (set_data other None
                               (set_size this (buf_size b)
                                 (set_data this (buf_data b) s1))))))))"

text \<open>\<open>~Buffer() { operator delete(data_); }\<close>, after which the instance is gone.\<close>

definition Buffer_dtor :: "nat \<Rightarrow> state \<Rightarrow> error + state" where
  "Buffer_dtor this s =
     (case objs s this of
        None \<Rightarrow> Inl Dead_object
      | Some a \<Rightarrow>
          (case operator_delete (buf_data a) s of
             Inl e \<Rightarrow> Inl e
           | Inr s1 \<Rightarrow> Inr (s1\<lparr>objs := (objs s1)(this := None)\<rparr>)))"

text \<open>\<open>std::string to_string() const { return std::string(data_, size_); }\<close>\<close>

definition to_string :: "nat \<Rightarrow> state \<Rightarrow> error + string" where
  "to_string this s =
     (case objs s this of
        None \<Rightarrow> Inl Dead_object
      | Some a \<Rightarrow> std_string (buf_data a) (buf_size a) s)"

subsection \<open>Value categories and the two \<open>test\<close> overloads\<close>

text \<open>
  The receiver of a member call is an lvalue (a named instance) or an rvalue (a
  temporary such as \<open>Buffer("r-value this")\<close>, or \<open>std::move(b)\<close>). The category
  belongs to the expression, not to the type, which is \<open>Buffer\<close> in both cases.
\<close>

datatype value_category = Lvalue | Rvalue

text \<open>\<open>void test() & { std::cout << "test: 'this' is a l-value" << std::endl; }\<close>\<close>

definition test_lref :: "nat \<Rightarrow> state \<Rightarrow> state" where
  "test_lref this s = s\<lparr>out := out s @ [''test: 'this' is a l-value'']\<rparr>"

text \<open>\<open>void test() && { std::cout << "test: 'this' is a r-value" << std::endl; }\<close>\<close>

definition test_rref :: "nat \<Rightarrow> state \<Rightarrow> state" where
  "test_rref this s = s\<lparr>out := out s @ [''test: 'this' is a r-value'']\<rparr>"

text \<open>
  The call \<open>e.test()\<close>: the ref-qualifier \<open>&\<close> accepts an lvalue receiver only and
  \<open>&&\<close> an rvalue receiver only, so the category of \<open>e\<close> selects the overload.
\<close>

fun Buffer_test :: "value_category \<Rightarrow> nat \<Rightarrow> state \<Rightarrow> state" where
  "Buffer_test Lvalue this s = test_lref this s"
| "Buffer_test Rvalue this s = test_rref this s"

subsection \<open>\<open>make_buffer\<close> and \<open>work_buffer\<close>\<close>

text \<open>The bytes of a string literal in memory: its characters and the closing NUL.\<close>

definition literal :: "string \<Rightarrow> char list" where
  "literal t = t @ [CHR 0x00]"

text \<open>
  \<open>Buffer make_buffer() { Buffer b("new buffer"); return b; }\<close>
  The operand of \<open>return\<close> is the name of a local variable, so the compiler may build
  \<open>b\<close> in the caller's result location \<open>ret\<close> (\<open>elide\<close>); otherwise the result is
  move-constructed from \<open>b\<close> at its own location \<open>loc\<close>, and \<open>b\<close> is destroyed when
  the function ends.
\<close>

definition make_buffer :: "bool \<Rightarrow> nat \<Rightarrow> nat \<Rightarrow> state \<Rightarrow> error + state" where
  "make_buffer elide loc ret s =
     (if elide then Buffer_str ret (literal ''new buffer'') s
      else
        (case Buffer_str loc (literal ''new buffer'') s of
           Inl e \<Rightarrow> Inl e
         | Inr s1 \<Rightarrow>
             (case Buffer_move ret loc s1 of
                Inl e \<Rightarrow> Inl e
              | Inr s2 \<Rightarrow> Buffer_dtor loc s2)))"

text \<open>
  \<open>template <typename Type> void work_buffer(Type&& value)
     { std::forward<Type>(value).test(); }\<close>
  \<open>Type\<close> is deduced from the argument: \<open>Buffer&\<close> for an lvalue, \<open>Buffer\<close> for an
  rvalue. \<open>std::forward<Type>(value)\<close> is \<open>static_cast<Type&&>(value)\<close>: an lvalue
  for \<open>Type = Buffer&\<close> (the references collapse), an rvalue for \<open>Type = Buffer\<close>.
  The parameter \<open>value\<close> itself is a name, hence an lvalue.
\<close>

datatype type_arg = T_Buffer | T_Buffer_lref

fun deduce :: "value_category \<Rightarrow> type_arg" where
  "deduce Lvalue = T_Buffer_lref"
| "deduce Rvalue = T_Buffer"

fun std_forward :: "type_arg \<Rightarrow> value_category \<Rightarrow> value_category" where
  "std_forward T_Buffer_lref c = Lvalue"
| "std_forward T_Buffer c = Rvalue"

definition work_buffer_inst :: "type_arg \<Rightarrow> nat \<Rightarrow> state \<Rightarrow> state" where
  "work_buffer_inst ty v s = Buffer_test (std_forward ty Lvalue) v s"

definition work_buffer :: "value_category \<Rightarrow> nat \<Rightarrow> state \<Rightarrow> state" where
  "work_buffer c v s = work_buffer_inst (deduce c) v s"

subsection \<open>A program as a sequence of operations on handles\<close>

text \<open>
  The operations that create, transfer and destroy instances. A constructor runs on
  storage that holds no live instance, as the storage of every variable, temporary and
  by-value parameter is; \<open>step\<close> refuses a construction anywhere else.
\<close>

datatype op =
    Construct_n nat nat
  | Construct_str nat "char list"
  | Construct_move nat nat
  | Assign_move nat nat
  | Destroy nat

datatype fault = Raised error | Storage_in_use

fun lift :: "error + state \<Rightarrow> fault + state" where
  "lift (Inl e) = Inl (Raised e)"
| "lift (Inr s) = Inr s"

fun step :: "op \<Rightarrow> state \<Rightarrow> fault + state" where
  "step (Construct_n this n) s =
     (if this \<in> dom (objs s) then Inl Storage_in_use else lift (Buffer_n this n s))"
| "step (Construct_str this str) s =
     (if this \<in> dom (objs s) then Inl Storage_in_use else lift (Buffer_str this str s))"
| "step (Construct_move this other) s =
     (if this \<in> dom (objs s) then Inl Storage_in_use else lift (Buffer_move this other s))"
| "step (Assign_move this other) s = lift (Buffer_move_assign this other s)"
| "step (Destroy this) s = lift (Buffer_dtor this s)"

fun exec :: "op list \<Rightarrow> state \<Rightarrow> fault + state" where
  "exec [] s = Inr s"
| "exec (x # xs) s = (case step x s of Inl e \<Rightarrow> Inl e | Inr s1 \<Rightarrow> exec xs s1)"

text \<open>The state in which a program starts, with \<open>m\<close> bytes to allocate.\<close>

definition start :: "nat \<Rightarrow> state" where
  "start m = \<lparr>objs = Map.empty, heap = Map.empty, nextblock = 0, avail = m,
              garbage = (\<lambda>i. CHR 0x00), released = [], copied = 0, out = []\<rparr>"

subsection \<open>Ownership\<close>

text \<open>The instance at \<open>a\<close> owns the block \<open>p\<close>.\<close>

definition owns :: "state \<Rightarrow> nat \<Rightarrow> nat \<Rightarrow> bool" where
  "owns s a p = (\<exists>b. objs s a = Some b \<and> buf_data b = Some p)"

text \<open>No block has two owners.\<close>

definition exclusive :: "state \<Rightarrow> bool" where
  "exclusive s = (\<forall>a a' p. owns s a p \<longrightarrow> owns s a' p \<longrightarrow> a = a')"

text \<open>
  The ownership invariant: no block has two owners; the live blocks are the owned ones
  (none leaked, none dangling); every live block was made by an earlier allocation; and
  the release log lists, each once, the blocks made so far that are no longer live.
\<close>

definition owned_inv :: "state \<Rightarrow> bool" where
  "owned_inv s =
     (exclusive s \<and>
      (\<forall>p. (p \<in> dom (heap s)) = (\<exists>a. owns s a p)) \<and>
      (\<forall>p. p \<in> dom (heap s) \<longrightarrow> p < nextblock s) \<and>
      distinct (released s) \<and>
      set (released s) = {p. p < nextblock s} - dom (heap s))"

text \<open>The blocks that the instance at \<open>a\<close> owns, as a list: none or one.\<close>

definition owned_blocks :: "state \<Rightarrow> nat \<Rightarrow> nat list" where
  "owned_blocks s a =
     (case objs s a of None \<Rightarrow> []
      | Some b \<Rightarrow> (case buf_data b of None \<Rightarrow> [] | Some p \<Rightarrow> [p]))"

subsection \<open>Which uses of a \<open>Buffer\<close> compile\<close>

text \<open>
  The class declares four functions that take another \<open>Buffer\<close>:
  \<open>Buffer(const Buffer&) = delete\<close>, \<open>Buffer& operator=(const Buffer&) = delete\<close>,
  \<open>Buffer(Buffer&& other)\<close> and \<open>Buffer& operator=(Buffer&& other)\<close>.
\<close>

datatype special = Copy_ctor | Copy_assign | Move_ctor | Move_assign

datatype ref_kind = Lref | Const_lref | Rref

fun takes :: "special \<Rightarrow> ref_kind" where
  "takes Copy_ctor = Const_lref"
| "takes Copy_assign = Const_lref"
| "takes Move_ctor = Rref"
| "takes Move_assign = Rref"

fun deleted :: "special \<Rightarrow> bool" where
  "deleted Copy_ctor = True"
| "deleted Copy_assign = True"
| "deleted Move_ctor = False"
| "deleted Move_assign = False"

text \<open>
  The function that a selected declaration runs on \<open>this\<close> and \<open>other\<close>; a deleted
  one has no definition.
\<close>

fun body :: "special \<Rightarrow> (nat \<Rightarrow> nat \<Rightarrow> state \<Rightarrow> error + state) option" where
  "body Copy_ctor = None"
| "body Copy_assign = None"
| "body Move_ctor = Some Buffer_move"
| "body Move_assign = Some Buffer_move_assign"

text \<open>
  Reference binding: \<open>Buffer&\<close> binds to an lvalue only, \<open>Buffer&&\<close> to an rvalue
  only, \<open>const Buffer&\<close> to both.
\<close>

fun binds :: "ref_kind \<Rightarrow> value_category \<Rightarrow> bool" where
  "binds Lref c = (c = Lvalue)"
| "binds Const_lref c = True"
| "binds Rref c = (c = Rvalue)"

text \<open>
  A use that makes or overwrites a \<open>Buffer\<close> from an expression \<open>e\<close> of type
  \<open>Buffer\<close>: the initialisation \<open>Buffer x(e)\<close> (also of a by-value parameter) and the
  assignment \<open>x = e\<close>. Overload resolution keeps the candidates whose parameter binds to
  \<open>e\<close> and prefers \<open>Buffer&&\<close> for an rvalue; the program is ill-formed when the
  function it selects is deleted.
\<close>

datatype request = Init | Assign

datatype compile_error = Use_of_deleted special | No_viable_function | Cannot_bind

fun candidates :: "request \<Rightarrow> special list" where
  "candidates Init = [Copy_ctor, Move_ctor]"
| "candidates Assign = [Copy_assign, Move_assign]"

definition pick :: "special \<Rightarrow> compile_error + special" where
  "pick k = (if deleted k then Inl (Use_of_deleted k) else Inr k)"

definition resolve :: "request \<Rightarrow> value_category \<Rightarrow> compile_error + special" where
  "resolve r c =
     (let viable = filter (\<lambda>k. binds (takes k) c) (candidates r)
      in case find (\<lambda>k. takes k = Rref) viable of
           Some k \<Rightarrow> pick k
         | None \<Rightarrow> (case viable of [] \<Rightarrow> Inl No_viable_function | k # ks \<Rightarrow> pick k))"

text \<open>
  The arguments of \<open>main\<close>: a named variable \<open>b1\<close>, \<open>std::move(b1)\<close>, and a
  temporary \<open>Buffer("temporary r-value")\<close>; and the parameters of \<open>send1\<close> to
  \<open>send4\<close>: \<open>Buffer b\<close>, \<open>Buffer& b\<close>, \<open>const Buffer& b\<close>, \<open>Buffer&& b\<close>.
  \<open>pass\<close> gives the constructor that a call runs to make the parameter, if any, or
  the reason why the call does not compile.
\<close>

datatype arg = Named | Moved | Temporary

fun category :: "arg \<Rightarrow> value_category" where
  "category Named = Lvalue"
| "category Moved = Rvalue"
| "category Temporary = Rvalue"

datatype param = By_value | By_ref ref_kind

definition send1 :: param where "send1 = By_value"
definition send2 :: param where "send2 = By_ref Lref"
definition send3 :: param where "send3 = By_ref Const_lref"
definition send4 :: param where "send4 = By_ref Rref"

fun pass :: "param \<Rightarrow> arg \<Rightarrow> compile_error + special option" where
  "pass By_value a =
     (case resolve Init (category a) of Inl e \<Rightarrow> Inl e | Inr k \<Rightarrow> Inr (Some k))"
| "pass (By_ref k) a = (if binds k (category a) then Inr None else Inl Cannot_bind)"

subsection \<open>States of small programs\<close>

text \<open>After \<open>Buffer b("abc");\<close> at location 0, started with 10 bytes to allocate.\<close>

definition one_handle :: state where
  "one_handle =
     \<lparr>objs = [0 \<mapsto> \<lparr>buf_data = Some 0, buf_size = 3\<rparr>], heap = [0 \<mapsto> ''abc''],
      nextblock = 1, avail = 7, garbage = (\<lambda>i. CHR 0x00), released = [], copied = 3,
      out = []\<rparr>"

text \<open>After \<open>Buffer b("abc"), c("de");\<close> at the locations 0 and 1.\<close>

definition two_handles :: state where
  "two_handles =
     \<lparr>objs = [0 \<mapsto> \<lparr>buf_data = Some 0, buf_size = 3\<rparr>,
              1 \<mapsto> \<lparr>buf_data = Some 1, buf_size = 2\<rparr>],
      heap = [0 \<mapsto> ''abc'', 1 \<mapsto> ''de''],
      nextblock = 2, avail = 5, garbage = (\<lambda>i. CHR 0x00), released = [], copied = 5,
      out = []\<rparr>"

text \<open>
  A program on three locations: \<open>Buffer a("buffer1"); Buffer b(std::move(a));
  Buffer c(4); c = std::move(b); c = std::move(c);\<close> and the end of the three
  lifetimes.
\<close>

definition demo_program :: "op list" where
  "demo_program =
     [Construct_str 0 (literal ''buffer1''), Construct_move 1 0, Construct_n 2 4,
      Assign_move 2 1, Assign_move 2 2, Destroy 2, Destroy 1, Destroy 0]"


section \<open>Properties\<close>

subsection \<open>Basic facts\<close>

lemma set_data_simps [simp]:
  "objs (set_data a p s) =
     (case objs s a of None \<Rightarrow> objs s | Some b \<Rightarrow> (objs s)(a \<mapsto> b\<lparr>buf_data := p\<rparr>))"
  "heap (set_data a p s) = heap s"
  "nextblock (set_data a p s) = nextblock s"
  "avail (set_data a p s) = avail s"
  "garbage (set_data a p s) = garbage s"
  "released (set_data a p s) = released s"
  "copied (set_data a p s) = copied s"
  "out (set_data a p s) = out s"
  by (simp_all add: set_data_def split: option.split)

lemma set_size_simps [simp]:
  "objs (set_size a n s) =
     (case objs s a of None \<Rightarrow> objs s | Some b \<Rightarrow> (objs s)(a \<mapsto> b\<lparr>buf_size := n\<rparr>))"
  "heap (set_size a n s) = heap s"
  "nextblock (set_size a n s) = nextblock s"
  "avail (set_size a n s) = avail s"
  "garbage (set_size a n s) = garbage s"
  "released (set_size a n s) = released s"
  "copied (set_size a n s) = copied s"
  "out (set_size a n s) = out s"
  by (simp_all add: set_size_def split: option.split)

lemma Buffer_overwrite [simp]:
  "(a::Buffer)\<lparr>buf_data := buf_data b, buf_size := buf_size b\<rparr> = (b::Buffer)"
  "(a::Buffer)\<lparr>buf_data := None, buf_size := 0\<rparr> = \<lparr>buf_data = None, buf_size = 0\<rparr>"
  by simp_all

lemma takeWhile_nul:
  "CHR 0x00 \<notin> set t \<Longrightarrow> takeWhile (\<lambda>c. c \<noteq> CHR 0x00) (t @ CHR 0x00 # rest) = t"
  by (induction t) auto

lemma strlen_text: "CHR 0x00 \<notin> set t \<Longrightarrow> strlen (t @ CHR 0x00 # rest) = Inr (length t)"
  by (simp add: strlen_def takeWhile_nul)


text \<open>The two example states are states that programs reach.\<close>

lemma one_handle_reached: "Buffer_str 0 (literal ''abc'') (start 10) = Inr one_handle"
  by (simp add: Buffer_str_def strlen_def literal_def Buffer_n_def operator_new_def
      start_def one_handle_def upt_rec eval_nat_numeral)

lemma two_handles_reached:
  "exec [Construct_str 0 (literal ''abc''), Construct_str 1 (literal ''de'')] (start 10)
     = Inr two_handles"
  by (simp add: Buffer_str_def strlen_def literal_def Buffer_n_def operator_new_def
      start_def two_handles_def upt_rec eval_nat_numeral fun_upd_twist)

subsection \<open>Transfer of ownership\<close>






text \<open>
  Claim C2. Move assignment \<open>operator=(Buffer&& other)\<close>: with \<open>this == &other\<close> the
  guard returns at once and the state is unchanged, so nothing is released and nothing is
  lost. For two different live instances, where the destination's \<open>data_\<close> is
  \<open>nullptr\<close> or a live block: that block (if any) is released, and it is the only
  release; the destination then holds the block and size of the source, the source is
  empty, and nothing is allocated or copied.
\<close>

theorem transfer_assign:
  "Buffer_move_assign h h s = Inr s \<and>
   (this \<noteq> other \<longrightarrow> objs s this = Some a \<longrightarrow> objs s other = Some b \<longrightarrow>
    (\<forall>p. buf_data a = Some p \<longrightarrow> p \<in> dom (heap s)) \<longrightarrow>
    (\<exists>s'. Buffer_move_assign this other s = Inr s' \<and>
       objs s' this = Some b \<and>
       objs s' other = Some \<lparr>buf_data = None, buf_size = 0\<rparr> \<and>
       (\<forall>x. x \<noteq> this \<longrightarrow> x \<noteq> other \<longrightarrow> objs s' x = objs s x) \<and>
       heap s' = (case buf_data a of None \<Rightarrow> heap s | Some p \<Rightarrow> (heap s)(p := None)) \<and>
       released s' = released s @ (case buf_data a of None \<Rightarrow> [] | Some p \<Rightarrow> [p]) \<and>
       nextblock s' = nextblock s \<and> copied s' = copied s \<and> out s' = out s))"
  by (cases "buf_data a") (auto simp add: Buffer_move_assign_def)

text \<open>
  Witness for C2: with \<open>"abc"\<close> at location 0 (block 0) and \<open>"de"\<close> at location 1
  (block 1), the assignment of 1 to 0 releases block 0 and hands block 1 over; the
  self-assignment of 0 changes nothing.
\<close>

theorem transfer_assign_witness:
  "Buffer_move_assign 0 0 two_handles = Inr two_handles \<and>
   (0::nat) \<noteq> 1 \<and>
   objs two_handles 0 = Some \<lparr>buf_data = Some 0, buf_size = 3\<rparr> \<and>
   objs two_handles 1 = Some \<lparr>buf_data = Some 1, buf_size = 2\<rparr> \<and>
   0 \<in> dom (heap two_handles) \<and>
   (\<exists>s'. Buffer_move_assign 0 1 two_handles = Inr s' \<and>
      objs s' 0 = Some \<lparr>buf_data = Some 1, buf_size = 2\<rparr> \<and>
      objs s' 1 = Some \<lparr>buf_data = None, buf_size = 0\<rparr> \<and>
      heap s' 0 = None \<and> heap s' 1 = Some ''de'' \<and>
      released s' = [0] \<and> nextblock s' = 2 \<and> copied s' = 5)"
proof -
  have h: "(0::nat) \<noteq> 1"
    "objs two_handles 0 = Some \<lparr>buf_data = Some 0, buf_size = 3\<rparr>"
    "objs two_handles 1 = Some \<lparr>buf_data = Some 1, buf_size = 2\<rparr>"
    "0 \<in> dom (heap two_handles)"
    by (simp_all add: two_handles_def)
  have live: "\<forall>p. buf_data \<lparr>buf_data = Some 0, buf_size = 3\<rparr> = Some p \<longrightarrow> p \<in> dom (heap two_handles)"
    using h(4) by simp
  note t = transfer_assign [of 0 two_handles 0 1 "\<lparr>buf_data = Some 0, buf_size = 3\<rparr>"
      "\<lparr>buf_data = Some 1, buf_size = 2\<rparr>"]
  from t have self: "Buffer_move_assign 0 0 two_handles = Inr two_handles" by blast
  from t h live obtain s' where m: "Buffer_move_assign 0 1 two_handles = Inr s'"
    and f: "objs s' 0 = Some \<lparr>buf_data = Some 1, buf_size = 2\<rparr>"
      "objs s' 1 = Some \<lparr>buf_data = None, buf_size = 0\<rparr>"
      "heap s' = (heap two_handles)(0 := None)"
      "released s' = released two_handles @ [0]"
      "nextblock s' = nextblock two_handles" "copied s' = copied two_handles"
    by auto
  from self h m f show ?thesis by (simp add: two_handles_def)
qed

text \<open>
  Claim C10. A handle that a transfer has left with \<open>data_ = nullptr\<close> and
  \<open>size_ = 0\<close> can still be read: \<open>to_string\<close> returns the empty string and raises
  nothing. This holds for any such handle, for the source of a move construction, and
  for the source of a move assignment to another instance.
\<close>

theorem moved_from_to_string:
  "(objs s h = Some \<lparr>buf_data = None, buf_size = 0\<rparr> \<longrightarrow> to_string h s = Inr []) \<and>
   (Buffer_move this h s = Inr s' \<longrightarrow> to_string h s' = Inr []) \<and>
   (this \<noteq> h \<longrightarrow> Buffer_move_assign this h s = Inr s' \<longrightarrow> to_string h s' = Inr [])"
  by (auto simp add: to_string_def Buffer_move_def Buffer_move_assign_def
      split: option.splits sum.splits if_splits)

text \<open>
  Witness for C10: the handle at location 0 reads as the empty string after it was moved
  into a new instance at location 1, and after it was move-assigned to the handle at
  location 1.
\<close>

theorem moved_from_to_string_witness:
  "(\<exists>s'. Buffer_move 1 0 one_handle = Inr s' \<and>
      objs s' 0 = Some \<lparr>buf_data = None, buf_size = 0\<rparr> \<and> to_string 0 s' = Inr []) \<and>
   (1::nat) \<noteq> 0 \<and>
   (\<exists>s'. Buffer_move_assign 1 0 two_handles = Inr s' \<and> to_string 0 s' = Inr [])"
proof -
  obtain s1 where m: "Buffer_move 1 0 one_handle = Inr s1"
    and e: "objs s1 0 = Some \<lparr>buf_data = None, buf_size = 0\<rparr>"
    by (simp add: Buffer_move_def one_handle_def)
  obtain s2 where a: "Buffer_move_assign 1 0 two_handles = Inr s2"
    by (simp add: Buffer_move_assign_def two_handles_def)
  have ne: "(1::nat) \<noteq> 0" by simp
  from moved_from_to_string [of one_handle 0 1 s1] m
  have "to_string 0 s1 = Inr []" by blast
  moreover from moved_from_to_string [of two_handles 0 1 s2] a ne
  have "to_string 0 s2 = Inr []" by blast
  ultimately show ?thesis using m e a ne by blast
qed

subsection \<open>Construction\<close>

text \<open>
  Claim C5. \<open>Buffer(size_t n)\<close> fails exactly when \<open>operator new\<close> cannot satisfy the
  request, and then with \<open>std::bad_alloc\<close> and nothing else. Otherwise it makes a
  handle of size \<open>n\<close> that owns a block of \<open>n\<close> bytes, and \<open>to_string\<close> returns
  those \<open>n\<close> bytes. The exception is not caught on the way: the string constructor,
  which delegates to this one, and \<open>make_buffer\<close> fail with it too.
\<close>

theorem sized_construction:
  "(Buffer_n this n s = Inl e) = (avail s < n \<and> e = Bad_alloc) \<and>
   (n \<le> avail s \<longrightarrow>
     (\<exists>s' p bs. Buffer_n this n s = Inr s' \<and>
        objs s' this = Some \<lparr>buf_data = Some p, buf_size = n\<rparr> \<and>
        heap s' p = Some bs \<and> length bs = n \<and> to_string this s' = Inr bs)) \<and>
   (avail s < n \<longrightarrow> strlen str = Inr n \<longrightarrow> Buffer_str this str s = Inl Bad_alloc) \<and>
   (avail s < 10 \<longrightarrow> make_buffer elide loc ret s = Inl Bad_alloc)"
  by (auto simp add: Buffer_n_def operator_new_def to_string_def Buffer_str_def
      make_buffer_def strlen_def literal_def)

text \<open>
  Witness for C5: with 4 bytes to allocate, a request for 4 bytes gives a handle of
  length 4, and a request for 5 bytes fails with \<open>std::bad_alloc\<close>, also through the
  string constructor and through \<open>make_buffer\<close>.
\<close>

theorem sized_construction_witness:
  "(4::nat) \<le> avail (start 4) \<and>
   (\<exists>s' t. Buffer_n 0 4 (start 4) = Inr s' \<and> to_string 0 s' = Inr t \<and> length t = 4) \<and>
   avail (start 4) < 5 \<and>
   Buffer_n 0 5 (start 4) = Inl Bad_alloc \<and>
   strlen (literal ''hello'') = Inr 5 \<and>
   Buffer_str 0 (literal ''hello'') (start 4) = Inl Bad_alloc \<and>
   make_buffer False 1 0 (start 4) = Inl Bad_alloc"
proof -
  have a: "(4::nat) \<le> avail (start 4)" "avail (start 4) < 5" "avail (start 4) < 10"
    by (simp_all add: start_def)
  have l: "strlen (literal ''hello'') = Inr 5"
    by (simp add: strlen_def literal_def)
  from sized_construction [of 0 4 "start 4"] a(1)
  have 1: "\<exists>s' t. Buffer_n 0 4 (start 4) = Inr s' \<and> to_string 0 s' = Inr t \<and> length t = 4"
    by blast
  from sized_construction [of 0 5 "start 4" Bad_alloc "literal ''hello''" False 1 0] a l
  have 2: "Buffer_n 0 5 (start 4) = Inl Bad_alloc"
    and 3: "Buffer_str 0 (literal ''hello'') (start 4) = Inl Bad_alloc"
    and 4: "make_buffer False 1 0 (start 4) = Inl Bad_alloc"
    by blast+
  from a l 1 2 3 4 show ?thesis by blast
qed

text \<open>
  Claim C6. \<open>Buffer(const char* str)\<close> on a C string, the bytes \<open>t\<close> (none of them
  NUL) followed by the closing NUL, when the allocation of \<open>length t\<close> bytes can be
  satisfied: the handle gets a new block of exactly that size whose contents are the
  bytes of \<open>t\<close>, \<open>length t\<close> bytes are copied, and \<open>to_string\<close> returns \<open>t\<close>.
\<close>

theorem textual_construction:
  assumes "CHR 0x00 \<notin> set t" and "length t \<le> avail s"
  shows "\<exists>s'. Buffer_str this (t @ CHR 0x00 # rest) s = Inr s' \<and>
           objs s' = (objs s)(this \<mapsto> \<lparr>buf_data = Some (nextblock s), buf_size = length t\<rparr>) \<and>
           heap s' = (heap s)(nextblock s \<mapsto> t) \<and>
           to_string this s' = Inr t \<and>
           nextblock s' = Suc (nextblock s) \<and>
           copied s' = copied s + length t"
  using assms
  by (simp add: Buffer_str_def strlen_text Buffer_n_def operator_new_def to_string_def)

text \<open>
  Witness for C6: \<open>Buffer b("buffer1")\<close> at location 0, with 64 bytes to allocate.
\<close>

theorem textual_construction_witness:
  "CHR 0x00 \<notin> set ''buffer1'' \<and> length ''buffer1'' \<le> avail (start 64) \<and>
   (\<exists>s'. Buffer_str 0 (literal ''buffer1'') (start 64) = Inr s' \<and>
      objs s' 0 = Some \<lparr>buf_data = Some 0, buf_size = 7\<rparr> \<and>
      heap s' 0 = Some ''buffer1'' \<and>
      to_string 0 s' = Inr ''buffer1'')"
proof -
  have h: "CHR 0x00 \<notin> set ''buffer1''" "length ''buffer1'' \<le> avail (start 64)"
    by (simp_all add: start_def)
  from textual_construction [OF h, of 0 "[]"] obtain s'
    where c: "Buffer_str 0 (''buffer1'' @ [CHR 0x00]) (start 64) = Inr s'"
      and f: "objs s' = (objs (start 64))(0 \<mapsto>
                \<lparr>buf_data = Some (nextblock (start 64)), buf_size = length ''buffer1''\<rparr>)"
        "heap s' = (heap (start 64))(nextblock (start 64) \<mapsto> ''buffer1'')"
        "to_string 0 s' = Inr ''buffer1''"
    by blast
  from f(1) have "objs s' 0 = Some \<lparr>buf_data = Some 0, buf_size = 7\<rparr>"
    by (simp add: start_def)
  moreover from f(2) have "heap s' 0 = Some ''buffer1''"
    by (simp add: start_def)
  ultimately show ?thesis using h c f(3) by (simp add: literal_def)
qed

text \<open>
  Claim C9. \<open>make_buffer\<close> returns its local \<open>b\<close> by name. Whether the compiler
  builds \<open>b\<close> in the caller's location or moves it there and destroys the local, and
  provided 10 bytes can be allocated and the local's location is free storage other than
  the result's: the caller's location holds a handle whose content is \<open>"new buffer"\<close>,
  exactly one block has been allocated, it holds \<open>"new buffer"\<close>, no block has been
  released, and the only bytes copied are the 10 bytes of the literal. The local leaves
  no instance behind.
\<close>

theorem factory_return:
  assumes "10 \<le> avail s" and "loc \<noteq> ret" and "loc \<notin> dom (objs s)"
  shows "\<exists>s'. make_buffer elide loc ret s = Inr s' \<and>
           objs s' = (objs s)(ret \<mapsto> \<lparr>buf_data = Some (nextblock s), buf_size = 10\<rparr>) \<and>
           to_string ret s' = Inr ''new buffer'' \<and>
           heap s' = (heap s)(nextblock s \<mapsto> ''new buffer'') \<and>
           nextblock s' = Suc (nextblock s) \<and>
           released s' = released s \<and>
           copied s' = copied s + 10"
proof -
  have t: "CHR 0x00 \<notin> set ''new buffer''" by simp
  have nb: "literal ''new buffer'' = ''new buffer'' @ CHR 0x00 # []"
    by (simp add: literal_def)
  have sl: "strlen (literal ''new buffer'') = Inr 10"
    unfolding nb using strlen_text [OF t, of "[]"] by simp
  have built: "Buffer_str a (literal ''new buffer'') s =
      Inr (s\<lparr>heap := (heap s)(nextblock s \<mapsto> ''new buffer''),
             nextblock := Suc (nextblock s), avail := avail s - 10,
             objs := (objs s)(a \<mapsto> \<lparr>buf_data = Some (nextblock s), buf_size = 10\<rparr>),
             copied := copied s + 10\<rparr>)" for a
    using assms(1) sl
    by (simp add: Buffer_str_def Buffer_n_def operator_new_def literal_def)
  show ?thesis
  proof (cases elide)
    case True
    then show ?thesis
      by (simp add: make_buffer_def built to_string_def)
  next
    case False
    have gone: "((objs s)(ret \<mapsto> y))(loc := None) = (objs s)(ret \<mapsto> y)" for y
      using assms(2,3) by (auto simp add: fun_eq_iff)
    from False assms(2) show ?thesis
      by (simp add: make_buffer_def built Buffer_move_def Buffer_dtor_def to_string_def gone)
  qed
qed

text \<open>
  Witness for C9: the call of \<open>make_buffer\<close> in a fresh program with 64 bytes to
  allocate, with the result at location 0 and the local at location 1, without elision.
\<close>

theorem factory_return_witness:
  "10 \<le> avail (start 64) \<and> (1::nat) \<noteq> 0 \<and> 1 \<notin> dom (objs (start 64)) \<and>
   (\<exists>s'. make_buffer False 1 0 (start 64) = Inr s' \<and>
      to_string 0 s' = Inr ''new buffer'' \<and>
      objs s' 1 = None \<and>
      nextblock s' = 1 \<and> released s' = [] \<and> copied s' = 10)"
proof -
  have h: "10 \<le> avail (start 64)" "(1::nat) \<noteq> 0" "1 \<notin> dom (objs (start 64))"
    by (simp_all add: start_def)
  from factory_return [OF h, of False] obtain s'
    where m: "make_buffer False 1 0 (start 64) = Inr s'"
      and f: "objs s' = (objs (start 64))(0 \<mapsto>
                \<lparr>buf_data = Some (nextblock (start 64)), buf_size = 10\<rparr>)"
        "to_string 0 s' = Inr ''new buffer''"
        "nextblock s' = Suc (nextblock (start 64))"
        "released s' = released (start 64)"
        "copied s' = copied (start 64) + 10"
    by blast
  from f(1) have "objs s' 1 = None" by (simp add: start_def)
  with h m f show ?thesis by (simp add: start_def)
qed

subsection \<open>Dispatch on the value category\<close>

text \<open>
  Claim C7, as amended. \<open>test()\<close> called on an rvalue receiver (a temporary) writes
  the line \<open>test: 'this' is a r-value\<close>, called on an lvalue receiver (a named
  instance) it writes \<open>test: 'this' is a l-value\<close>; nothing else in the state changes.
  The receiver has the same type and may be the same instance in both calls: the
  category of the receiver expression alone selects the overload.
\<close>

theorem test_dispatch:
  "Buffer_test Rvalue this s = s\<lparr>out := out s @ [''test: 'this' is a r-value'']\<rparr> \<and>
   Buffer_test Lvalue this s = s\<lparr>out := out s @ [''test: 'this' is a l-value'']\<rparr>"
  by (simp add: test_lref_def test_rref_def)

text \<open>
  Counterexample to C7 as stated: the line that \<open>test()\<close> writes for a temporary is
  not \<open>accessed as transient value\<close>, and the line for a named instance is not
  \<open>accessed as persistent value\<close>.
\<close>

theorem test_dispatch_counterexample:
  "out (Buffer_test Rvalue 0 (start 0)) = [''test: 'this' is a r-value''] \<and>
   out (Buffer_test Rvalue 0 (start 0)) \<noteq> [''accessed as transient value''] \<and>
   out (Buffer_test Lvalue 0 (start 0)) = [''test: 'this' is a l-value''] \<and>
   out (Buffer_test Lvalue 0 (start 0)) \<noteq> [''accessed as persistent value'']"
  by (simp add: test_lref_def test_rref_def start_def)

text \<open>
  Claim C8. \<open>work_buffer(e)\<close> makes the call of \<open>test()\<close> that \<open>e.test()\<close> makes at
  the call site: for a named handle the overload for lvalues runs, for a temporary the
  overload for rvalues, although the parameter \<open>value\<close> inside \<open>work_buffer\<close> is a
  name. The two reports differ, so the distinction is not lost.
\<close>

theorem forwarding_preserves_category:
  "work_buffer c v s = Buffer_test c v s \<and>
   work_buffer Lvalue v s = test_lref v s \<and>
   work_buffer Rvalue v s = test_rref v s \<and>
   out (work_buffer Lvalue v s) = out s @ [''test: 'this' is a l-value''] \<and>
   out (work_buffer Rvalue v s) = out s @ [''test: 'this' is a r-value''] \<and>
   work_buffer Lvalue v s \<noteq> work_buffer Rvalue v s"
proof -
  have "out (test_lref v s) \<noteq> out (test_rref v s)"
    by (simp add: test_lref_def test_rref_def)
  then have "test_lref v s \<noteq> test_rref v s" by auto
  then show ?thesis
    by (cases c) (simp_all add: work_buffer_def work_buffer_inst_def test_lref_def test_rref_def)
qed

subsection \<open>What each operation does to the objects and the heap\<close>

lemma Buffer_n_Inr:
  "Buffer_n this n s = Inr s' \<Longrightarrow>
     objs s' = (objs s)(this \<mapsto> \<lparr>buf_data = Some (nextblock s), buf_size = n\<rparr>) \<and>
     dom (heap s') = insert (nextblock s) (dom (heap s)) \<and>
     nextblock s' = Suc (nextblock s) \<and> released s' = released s"
  by (auto simp add: Buffer_n_def operator_new_def split: if_splits)

lemma std_copy_Inr:
  "std_copy m n d s = Inr s' \<Longrightarrow>
     objs s' = objs s \<and> dom (heap s') = dom (heap s) \<and>
     nextblock s' = nextblock s \<and> released s' = released s"
  by (cases d) (auto split: if_splits option.splits)

lemma Buffer_str_Inr:
  assumes "Buffer_str this str s = Inr s'"
  shows "(\<exists>n. objs s' = (objs s)(this \<mapsto> \<lparr>buf_data = Some (nextblock s), buf_size = n\<rparr>)) \<and>
     dom (heap s') = insert (nextblock s) (dom (heap s)) \<and>
     nextblock s' = Suc (nextblock s) \<and> released s' = released s"
proof -
  from assms obtain n s1 and b :: Buffer where n: "Buffer_n this n s = Inr s1"
    and c: "std_copy str (buf_size b) (buf_data b) s1 = Inr s'"
    by (auto simp add: Buffer_str_def split: sum.splits option.splits)
  from Buffer_n_Inr [OF n] std_copy_Inr [OF c] show ?thesis by auto
qed


lemma set_owned_blocks: "set (owned_blocks s a) = {p. owns s a p}"
proof (cases "objs s a")
  case None
  then show ?thesis by (simp add: owned_blocks_def owns_def)
next
  case (Some b)
  then show ?thesis by (cases "buf_data b") (simp_all add: owned_blocks_def owns_def)
qed

lemma distinct_owned_blocks: "distinct (owned_blocks s a)"
  by (simp add: owned_blocks_def split: option.splits)

lemma owned_invD:
  assumes "owned_inv s"
  shows "\<And>a a' p. owns s a p \<Longrightarrow> owns s a' p \<Longrightarrow> a = a'"
    and "\<And>p. (p \<in> dom (heap s)) = (\<exists>a. owns s a p)"
    and "\<And>p. p \<in> dom (heap s) \<Longrightarrow> p < nextblock s"
    and "distinct (released s)"
    and "set (released s) = {p. p < nextblock s} - dom (heap s)"
  using assms by (simp_all add: owned_inv_def exclusive_def)

lemma owned_invI:
  assumes "\<And>a a' p. owns s a p \<Longrightarrow> owns s a' p \<Longrightarrow> a = a'"
    and "\<And>p. (p \<in> dom (heap s)) = (\<exists>a. owns s a p)"
    and "\<And>p. p \<in> dom (heap s) \<Longrightarrow> p < nextblock s"
    and "distinct (released s)"
    and "set (released s) = {p. p < nextblock s} - dom (heap s)"
  shows "owned_inv s"
  using assms by (simp add: owned_inv_def exclusive_def)

lemma owned_inv_alloc:
  assumes inv: "owned_inv s" and fr: "this \<notin> dom (objs s)"
    and ob: "objs s' = (objs s)(this \<mapsto> \<lparr>buf_data = Some (nextblock s), buf_size = n\<rparr>)"
    and hp: "dom (heap s') = insert (nextblock s) (dom (heap s))"
    and nb: "nextblock s' = Suc (nextblock s)" and rl: "released s' = released s"
  shows "owned_inv s'"
proof (rule owned_invI)
  note d = owned_invD [OF inv]
  have fresh: "\<not> owns s a (nextblock s)" for a
    using d(2) [of "nextblock s"] d(3) [of "nextblock s"] by blast
  have ow: "owns s' a p = (if a = this then p = nextblock s else owns s a p)" for a p
    using ob by (auto simp add: owns_def)
  have nothis: "\<not> owns s this p" for p
    using fr by (auto simp add: owns_def)
  show "a = a'" if "owns s' a p" "owns s' a' p" for a a' p
    using that d(1) [of a p a'] fresh unfolding ow by (auto split: if_splits)
  show "(p \<in> dom (heap s')) = (\<exists>a. owns s' a p)" for p
  proof (cases "p = nextblock s")
    case True
    then show ?thesis unfolding ow hp by auto
  next
    case False
    have "(\<exists>a. owns s' a p) = (\<exists>a. owns s a p)"
      unfolding ow using False nothis by metis
    with False d(2) [of p] show ?thesis unfolding hp by simp
  qed
  show "p < nextblock s'" if "p \<in> dom (heap s')" for p
    using that d(3) [of p] unfolding hp nb by (cases "p = nextblock s") simp_all
  show "distinct (released s')"
    using d(4) unfolding rl .
  show "set (released s') = {p. p < nextblock s'} - dom (heap s')"
    unfolding rl hp nb d(5) using d(3) by (auto simp add: less_Suc_eq)
qed

lemma owned_inv_release:
  assumes inv: "owned_inv s"
    and ow: "\<And>x p. owns s' x p = (x \<noteq> this \<and> owns s x p)"
    and hp: "dom (heap s') = dom (heap s) - {p. owns s this p}"
    and nb: "nextblock s' = nextblock s"
    and rl: "released s' = released s @ owned_blocks s this"
  shows "owned_inv s'"
proof (rule owned_invI)
  note d = owned_invD [OF inv]
  have sub: "p \<in> dom (heap s)" if "owns s this p" for p
    using that d(2) [of p] by blast
  show "a = a'" if "owns s' a p" "owns s' a' p" for a a' p
    using that d(1) [of a p a'] unfolding ow by simp
  have hp': "(p \<in> dom (heap s')) = (p \<in> dom (heap s) \<and> \<not> owns s this p)" for p
    unfolding hp by simp
  show "(p \<in> dom (heap s')) = (\<exists>a. owns s' a p)" for p
    unfolding hp' ow using d(2) [of p] d(1) [of _ p this] by metis
  show "p < nextblock s'" if "p \<in> dom (heap s')" for p
    using that d(3) [of p] unfolding hp' nb by simp
  show "distinct (released s')"
    unfolding rl using d(4) distinct_owned_blocks [of s this] sub
    by (auto simp add: set_owned_blocks d(5))
  show "set (released s') = {p. p < nextblock s'} - dom (heap s')"
  proof (rule set_eqI)
    fix p
    show "(p \<in> set (released s')) = (p \<in> {p. p < nextblock s'} - dom (heap s'))"
      unfolding rl nb set_append set_owned_blocks d(5) Un_iff Diff_iff hp' mem_Collect_eq
      using sub [of p] d(3) [of p] by blast
  qed
qed

lemma owned_inv_handover:
  assumes inv: "owned_inv s"
    and ow: "\<And>x p. owns s' x p = (if x = this then owns s other p else x \<noteq> other \<and> owns s x p)"
    and ne: "this \<noteq> other"
    and hp: "dom (heap s') = dom (heap s) - {p. owns s this p}"
    and nb: "nextblock s' = nextblock s"
    and rl: "released s' = released s @ owned_blocks s this"
  shows "owned_inv s'"
proof (rule owned_invI)
  note d = owned_invD [OF inv]
  have sub: "p \<in> dom (heap s)" if "owns s this p" for p
    using that d(2) [of p] by blast
  have hp': "(p \<in> dom (heap s')) = (p \<in> dom (heap s) \<and> \<not> owns s this p)" for p
    unfolding hp by simp
  show "a = a'" if "owns s' a p" "owns s' a' p" for a a' p
    using that d(1) [of a p a'] d(1) [of other p a'] d(1) [of a p other] ne
    unfolding ow by (auto split: if_splits)
  show "(p \<in> dom (heap s')) = (\<exists>a. owns s' a p)" for p
  proof
    assume "p \<in> dom (heap s')"
    then obtain a where a: "owns s a p" "a \<noteq> this"
      unfolding hp' using d(2) [of p] by blast
    show "\<exists>a. owns s' a p"
    proof (cases "a = other")
      case True
      with a have "owns s' this p" unfolding ow by simp
      then show ?thesis ..
    next
      case False
      with a have "owns s' a p" unfolding ow by simp
      then show ?thesis ..
    qed
  next
    assume "\<exists>a. owns s' a p"
    then obtain a where "owns s' a p" ..
    then have "\<exists>x. x \<noteq> this \<and> owns s x p"
      unfolding ow using ne by (cases "a = this") auto
    then obtain x where x: "x \<noteq> this" "owns s x p" by blast
    with d(1) [of x p this] have "\<not> owns s this p" by blast
    with x d(2) [of p] show "p \<in> dom (heap s')" unfolding hp' by blast
  qed
  show "p < nextblock s'" if "p \<in> dom (heap s')" for p
    using that d(3) [of p] unfolding hp' nb by simp
  show "distinct (released s')"
    unfolding rl using d(4) distinct_owned_blocks [of s this] sub
    by (auto simp add: set_owned_blocks d(5))
  show "set (released s') = {p. p < nextblock s'} - dom (heap s')"
  proof (rule set_eqI)
    fix p
    show "(p \<in> set (released s')) = (p \<in> {p. p < nextblock s'} - dom (heap s'))"
      unfolding rl nb set_append set_owned_blocks d(5) Un_iff Diff_iff hp' mem_Collect_eq
      using sub [of p] d(3) [of p] by blast
  qed
qed

lemma operator_delete_Inr:
  assumes "operator_delete (buf_data a) s = Inr s1" and "objs s this = Some a"
  shows "objs s1 = objs s \<and> dom (heap s1) = dom (heap s) - {p. owns s this p} \<and>
         nextblock s1 = nextblock s \<and> released s1 = released s @ owned_blocks s this \<and>
         copied s1 = copied s \<and> out s1 = out s"
proof (cases "buf_data a")
  case None
  with assms show ?thesis by (auto simp add: owns_def owned_blocks_def)
next
  case (Some p)
  with assms show ?thesis
    by (auto simp add: owns_def owned_blocks_def split: option.splits if_splits)
qed

lemma operator_delete_owned:
  assumes "owned_inv s" and "objs s this = Some a"
  shows "\<exists>s1. operator_delete (buf_data a) s = Inr s1"
proof (cases "buf_data a")
  case None
  then show ?thesis by simp
next
  case (Some p)
  with assms(2) have "owns s this p" by (simp add: owns_def)
  with owned_invD(2) [OF assms(1), of p] have "p \<in> dom (heap s)" by blast
  with Some show ?thesis by auto
qed

lemma Buffer_move_Inr:
  assumes "Buffer_move this other s = Inr s'" and "this \<noteq> other"
  shows "\<exists>b. objs s other = Some b \<and>
           objs s' = (objs s)(this \<mapsto> b, other \<mapsto> \<lparr>buf_data = None, buf_size = 0\<rparr>) \<and>
           heap s' = heap s \<and> nextblock s' = nextblock s \<and> avail s' = avail s \<and>
           released s' = released s \<and> copied s' = copied s \<and> out s' = out s"
  using assms by (auto simp add: Buffer_move_def split: option.splits)

lemma Buffer_move_assign_Inr:
  assumes "Buffer_move_assign this other s = Inr s'" and "this \<noteq> other"
  shows "\<exists>a b. objs s this = Some a \<and> objs s other = Some b \<and>
           objs s' = (objs s)(this \<mapsto> b, other \<mapsto> \<lparr>buf_data = None, buf_size = 0\<rparr>) \<and>
           dom (heap s') = dom (heap s) - {p. owns s this p} \<and>
           nextblock s' = nextblock s \<and>
           released s' = released s @ owned_blocks s this \<and>
           copied s' = copied s \<and> out s' = out s"
proof -
  from assms obtain a s1 where a: "objs s this = Some a"
    and d: "operator_delete (buf_data a) s = Inr s1"
    by (auto simp add: Buffer_move_assign_def split: option.splits sum.splits)
  note r = operator_delete_Inr [OF d a]
  from assms a d r obtain b where b: "objs s other = Some b"
    by (auto simp add: Buffer_move_assign_def split: option.splits)
  from assms a d r b have "s' = set_size other 0 (set_data other None
      (set_size this (buf_size b) (set_data this (buf_data b) s1)))"
    by (simp add: Buffer_move_assign_def)
  with assms(2) a b r show ?thesis by simp
qed

lemma Buffer_dtor_Inr:
  assumes "Buffer_dtor this s = Inr s'"
  shows "objs s' = (objs s)(this := None) \<and>
         dom (heap s') = dom (heap s) - {p. owns s this p} \<and>
         nextblock s' = nextblock s \<and>
         released s' = released s @ owned_blocks s this \<and>
         copied s' = copied s \<and> out s' = out s"
proof -
  from assms obtain a s1 where a: "objs s this = Some a"
    and d: "operator_delete (buf_data a) s = Inr s1"
    by (auto simp add: Buffer_dtor_def split: option.splits sum.splits)
  from assms a d have "s' = s1\<lparr>objs := (objs s1)(this := None)\<rparr>"
    by (simp add: Buffer_dtor_def)
  with operator_delete_Inr [OF d a] show ?thesis by simp
qed

lemma owns_handover:
  assumes "objs s other = Some b" and "this \<noteq> other"
    and "objs s' = (objs s)(this \<mapsto> b, other \<mapsto> \<lparr>buf_data = None, buf_size = 0\<rparr>)"
  shows "owns s' x p = (if x = this then owns s other p else x \<noteq> other \<and> owns s x p)"
  using assms by (simp add: owns_def)

lemma owns_removed:
  assumes "objs s' = (objs s)(this := None)"
  shows "owns s' x p = (x \<noteq> this \<and> owns s x p)"
  using assms by (simp add: owns_def)

lemma not_live_owns_nothing:
  assumes "this \<notin> dom (objs s)"
  shows "{p. owns s this p} = {}" and "owned_blocks s this = []"
  using assms by (simp_all add: owns_def owned_blocks_def domIff)

lemma lift_Inr: "(lift r = Inr s') = (r = Inr s')"
  by (cases r) simp_all

lemma step_owned_inv:
  assumes inv: "owned_inv s" and st: "step x s = Inr s'"
  shows "owned_inv s'"
proof (cases x)
  case (Construct_n this n)
  with st have fr: "this \<notin> dom (objs s)" and r: "Buffer_n this n s = Inr s'"
    by (simp_all add: lift_Inr split: if_splits)
  from Buffer_n_Inr [OF r] owned_inv_alloc [OF inv fr] show ?thesis by blast
next
  case (Construct_str this str)
  with st have fr: "this \<notin> dom (objs s)" and r: "Buffer_str this str s = Inr s'"
    by (simp_all add: lift_Inr split: if_splits)
  from Buffer_str_Inr [OF r] owned_inv_alloc [OF inv fr] show ?thesis by blast
next
  case (Construct_move this other)
  with st have fr: "this \<notin> dom (objs s)" and r: "Buffer_move this other s = Inr s'"
    by (simp_all add: lift_Inr split: if_splits)
  from r fr have ne: "this \<noteq> other"
    by (auto simp add: Buffer_move_def split: option.splits)
  from Buffer_move_Inr [OF r ne] obtain b where b: "objs s other = Some b"
    and ob: "objs s' = (objs s)(this \<mapsto> b, other \<mapsto> \<lparr>buf_data = None, buf_size = 0\<rparr>)"
    and rest: "heap s' = heap s" "nextblock s' = nextblock s" "released s' = released s"
    by blast
  show ?thesis
  proof (rule owned_inv_handover [OF inv _ ne])
    show "owns s' x p = (if x = this then owns s other p else x \<noteq> other \<and> owns s x p)" for x p
      by (rule owns_handover [OF b ne ob])
  qed (simp_all add: rest not_live_owns_nothing [OF fr])
next
  case (Assign_move this other)
  with st have r: "Buffer_move_assign this other s = Inr s'"
    by (simp add: lift_Inr)
  show ?thesis
  proof (cases "this = other")
    case True
    with r inv show ?thesis by (simp add: Buffer_move_assign_def)
  next
    case ne: False
    from Buffer_move_assign_Inr [OF r ne] obtain a b where b: "objs s other = Some b"
      and ob: "objs s' = (objs s)(this \<mapsto> b, other \<mapsto> \<lparr>buf_data = None, buf_size = 0\<rparr>)"
      and rest: "dom (heap s') = dom (heap s) - {p. owns s this p}"
        "nextblock s' = nextblock s" "released s' = released s @ owned_blocks s this"
      by blast
    show ?thesis
    proof (rule owned_inv_handover [OF inv _ ne])
      show "owns s' x p = (if x = this then owns s other p else x \<noteq> other \<and> owns s x p)" for x p
        by (rule owns_handover [OF b ne ob])
    qed (simp_all add: rest)
  qed
next
  case (Destroy this)
  with st have r: "Buffer_dtor this s = Inr s'"
    by (simp add: lift_Inr)
  note f = Buffer_dtor_Inr [OF r]
  show ?thesis
  proof (rule owned_inv_release [OF inv])
    show "owns s' x p = (x \<noteq> this \<and> owns s x p)" for x p
      using f by (simp add: owns_removed)
  qed (simp_all add: f)
qed

lemma step_no_double_release:
  assumes inv: "owned_inv s"
  shows "step x s \<noteq> Inl (Raised Invalid_delete)"
proof (cases x)
  case (Construct_n this n)
  then show ?thesis
    by (simp add: Buffer_n_def operator_new_def)
next
  case (Construct_str this str)
  have "Buffer_str this str s \<noteq> Inl Invalid_delete"
    by (auto simp add: Buffer_str_def strlen_def Buffer_n_def operator_new_def
        split: sum.splits option.splits if_splits)
  with Construct_str show ?thesis
    by (cases "Buffer_str this str s") simp_all
next
  case (Construct_move this other)
  then show ?thesis
    by (simp add: Buffer_move_def split: option.splits)
next
  case (Assign_move this other)
  have "Buffer_move_assign this other s \<noteq> Inl Invalid_delete"
  proof (cases "objs s this")
    case None
    then show ?thesis by (simp add: Buffer_move_assign_def)
  next
    case (Some a)
    from operator_delete_owned [OF inv Some] obtain s1
      where "operator_delete (buf_data a) s = Inr s1" ..
    with Some show ?thesis
      by (simp add: Buffer_move_assign_def split: option.splits)
  qed
  with Assign_move show ?thesis
    by (cases "Buffer_move_assign this other s") simp_all
next
  case (Destroy this)
  have "Buffer_dtor this s \<noteq> Inl Invalid_delete"
  proof (cases "objs s this")
    case None
    then show ?thesis by (simp add: Buffer_dtor_def)
  next
    case (Some a)
    from operator_delete_owned [OF inv Some] obtain s1
      where "operator_delete (buf_data a) s = Inr s1" ..
    with Some show ?thesis by (simp add: Buffer_dtor_def)
  qed
  with Destroy show ?thesis
    by (cases "Buffer_dtor this s") simp_all
qed

lemma exec_owned_inv:
  "owned_inv s \<Longrightarrow> exec xs s = Inr s' \<Longrightarrow> owned_inv s'"
proof (induction xs arbitrary: s)
  case Nil
  then show ?case by simp
next
  case (Cons x xs)
  from Cons.prems(2) obtain s1 where 1: "step x s = Inr s1" and 2: "exec xs s1 = Inr s'"
    by (auto split: sum.splits)
  from Cons.IH [OF step_owned_inv [OF Cons.prems(1) 1] 2] show ?case .
qed

lemma exec_no_double_release:
  "owned_inv s \<Longrightarrow> exec xs s \<noteq> Inl (Raised Invalid_delete)"
proof (induction xs arbitrary: s)
  case Nil
  then show ?case by simp
next
  case (Cons x xs)
  show ?case
  proof (cases "step x s")
    case (Inl e)
    with step_no_double_release [OF Cons.prems, of x] show ?thesis by simp
  next
    case (Inr s1)
    with Cons.IH [OF step_owned_inv [OF Cons.prems Inr]] show ?thesis by simp
  qed
qed

lemma count_list_distinct:
  "distinct xs \<Longrightarrow> count_list xs x = (if x \<in> set xs then 1 else 0)"
  by (induction xs) auto

lemma owned_inv_start: "owned_inv (start m)"
  by (simp add: owned_inv_def exclusive_def owns_def start_def)


subsection \<open>Exclusive ownership\<close>

text \<open>
  Claim C3. Take a state in which the ownership invariant holds (no block has two
  owners, the live blocks are exactly the owned ones, the release log lists each dead
  block once) and run any sequence of constructions, move constructions, move
  assignments and destructions. No step releases a block that is not live, so no block
  is released twice. If the sequence runs to its end, the invariant holds again: no
  block has two owners; every live block has an owner and has not been released; every
  block that was allocated and is no longer live has been released exactly once; and
  once every handle is destroyed, no block is live and every block ever allocated
  has been released exactly once.
\<close>

theorem exclusive_ownership:
  assumes "owned_inv s"
  shows "exec xs s \<noteq> Inl (Raised Invalid_delete) \<and>
         (\<forall>s'. exec xs s = Inr s' \<longrightarrow>
            owned_inv s' \<and> exclusive s' \<and>
            (\<forall>p. p \<in> dom (heap s') \<longrightarrow> (\<exists>a. owns s' a p) \<and> count_list (released s') p = 0) \<and>
            (\<forall>p. p < nextblock s' \<longrightarrow> p \<notin> dom (heap s') \<longrightarrow> count_list (released s') p = 1) \<and>
            (objs s' = Map.empty \<longrightarrow>
               heap s' = Map.empty \<and> (\<forall>p. p < nextblock s' \<longrightarrow> count_list (released s') p = 1)))"
proof (intro conjI allI impI)
  show "exec xs s \<noteq> Inl (Raised Invalid_delete)"
    by (rule exec_no_double_release [OF assms])
next
  fix s' assume r: "exec xs s = Inr s'"
  note inv = exec_owned_inv [OF assms r]
  note d = owned_invD [OF inv]
  show "owned_inv s'" by (rule inv)
  show "exclusive s'" using inv by (simp add: owned_inv_def)
  have cnt: "count_list (released s') p = (if p < nextblock s' \<and> p \<notin> dom (heap s') then 1 else 0)" for p
    unfolding count_list_distinct [OF d(4)] d(5) by simp
  { fix p assume p: "p \<in> dom (heap s')"
    show "\<exists>a. owns s' a p" using p d(2) [of p] by simp
    show "count_list (released s') p = 0" using p cnt [of p] by simp }
  { fix p assume "p < nextblock s'" "p \<notin> dom (heap s')"
    then show "count_list (released s') p = 1" using cnt [of p] by simp }
  { assume e: "objs s' = Map.empty"
    have none: "p \<notin> dom (heap s')" for p
      using d(2) [of p] e by (simp add: owns_def)
    then show "heap s' = Map.empty" by (auto simp add: fun_eq_iff)
    fix p assume "p < nextblock s'"
    with none [of p] show "count_list (released s') p = 1" using cnt [of p] by simp }
qed


text \<open>
  Witness for C3: the program \<open>demo_program\<close> from a fresh state with 64 bytes to
  allocate. It allocates the blocks 0 and 1, moves block 0 from location 0 to 1 and on to
  2 (which releases block 1), and ends with no handle, no live block, and each of the two
  blocks released once.
\<close>

theorem exclusive_ownership_witness:
  "owned_inv (start 64) \<and>
   (\<exists>s'. exec demo_program (start 64) = Inr s' \<and>
      exclusive s' \<and> objs s' = Map.empty \<and> heap s' = Map.empty \<and> nextblock s' = 2 \<and>
      count_list (released s') 0 = 1 \<and> count_list (released s') 1 = 1)"
proof -
  have i: "owned_inv (start 64)" by (rule owned_inv_start)
  obtain s' where r: "exec demo_program (start 64) = Inr s'"
    and e: "objs s' = Map.empty" and n: "nextblock s' = 2"
    by (simp add: demo_program_def start_def literal_def Buffer_str_def strlen_def
        Buffer_n_def operator_new_def Buffer_move_def Buffer_move_assign_def Buffer_dtor_def
        fun_eq_iff)
  from exclusive_ownership [OF i, of demo_program] r e n
  have "exclusive s'" "heap s' = Map.empty"
    "count_list (released s') 0 = 1" "count_list (released s') 1 = 1"
    by simp_all
  with i r e n show ?thesis by blast
qed


subsection \<open>No duplication\<close>

lemma exclusive_handover:
  assumes ex: "exclusive s"
    and ow: "\<And>x p. owns s' x p = (if x = this then owns s other p else x \<noteq> other \<and> owns s x p)"
    and ne: "this \<noteq> other"
  shows "exclusive s'"
  unfolding exclusive_def
proof (intro allI impI)
  fix a a' p assume "owns s' a p" "owns s' a' p"
  with ex [unfolded exclusive_def, rule_format, of a p a']
    ex [unfolded exclusive_def, rule_format, of other p a']
    ex [unfolded exclusive_def, rule_format, of a p other] ne
  show "a = a'" unfolding ow by (auto split: if_splits)
qed

lemma exclusive_removed:
  assumes ex: "exclusive s"
    and ow: "\<And>x p. owns s' x p = (x \<noteq> this \<and> owns s x p)"
  shows "exclusive s'"
  using ex unfolding exclusive_def ow by blast

lemma exclusive_Buffer_move:
  assumes ex: "exclusive s" and r: "Buffer_move this other s = Inr s'"
  shows "exclusive s'"
proof (cases "this = other")
  case True
  with r have "objs s' = (objs s)(this \<mapsto> \<lparr>buf_data = None, buf_size = 0\<rparr>)"
    by (auto simp add: Buffer_move_def split: option.splits)
  then have "owns s' x p = (x \<noteq> this \<and> owns s x p)" for x p
    by (simp add: owns_def)
  then show ?thesis by (rule exclusive_removed [OF ex])
next
  case ne: False
  from Buffer_move_Inr [OF r ne] obtain b where b: "objs s other = Some b"
    and ob: "objs s' = (objs s)(this \<mapsto> b, other \<mapsto> \<lparr>buf_data = None, buf_size = 0\<rparr>)"
    by blast
  show ?thesis
    by (rule exclusive_handover [OF ex owns_handover [OF b ne ob] ne])
qed

lemma exclusive_Buffer_move_assign:
  assumes ex: "exclusive s" and r: "Buffer_move_assign this other s = Inr s'"
  shows "exclusive s'"
proof (cases "this = other")
  case True
  with r ex show ?thesis by (simp add: Buffer_move_assign_def)
next
  case ne: False
  from Buffer_move_assign_Inr [OF r ne] obtain b where b: "objs s other = Some b"
    and ob: "objs s' = (objs s)(this \<mapsto> b, other \<mapsto> \<lparr>buf_data = None, buf_size = 0\<rparr>)"
    by blast
  show ?thesis
    by (rule exclusive_handover [OF ex owns_handover [OF b ne ob] ne])
qed

lemma transfer_no_copy:
  assumes "body k = Some f" and "f this other s = Inr s'"
  shows "nextblock s' = nextblock s \<and> copied s' = copied s \<and> dom (heap s') \<subseteq> dom (heap s)"
proof (cases "this = other")
  case True
  with assms show ?thesis
    by (cases k) (auto simp add: Buffer_move_def Buffer_move_assign_def split: option.splits)
next
  case ne: False
  show ?thesis
  proof (cases k)
    case Move_ctor
    with assms have "Buffer_move this other s = Inr s'" by simp
    from Buffer_move_Inr [OF this ne] show ?thesis by auto
  next
    case Move_assign
    with assms have "Buffer_move_assign this other s = Inr s'" by simp
    from Buffer_move_assign_Inr [OF this ne] show ?thesis by auto
  qed (use assms in simp_all)
qed

lemma resolve_cases:
  "resolve Init Lvalue = Inl (Use_of_deleted Copy_ctor)"
  "resolve Assign Lvalue = Inl (Use_of_deleted Copy_assign)"
  "resolve Init Rvalue = Inr Move_ctor"
  "resolve Assign Rvalue = Inr Move_assign"
  by (simp_all add: resolve_def pick_def)


text \<open>
  The calls of \<open>send1\<close> to \<open>send4\<close> in \<open>main\<close> that are commented out as errors
  are the ones that do not compile, and the others do.
\<close>

lemma calls_of_main:
  "pass send1 Named = Inl (Use_of_deleted Copy_ctor)"
  "pass send2 Named = Inr None"
  "pass send3 Named = Inr None"
  "pass send4 Named = Inl Cannot_bind"
  "pass send1 Moved = Inr (Some Move_ctor)"
  "pass send2 Moved = Inl Cannot_bind"
  "pass send3 Moved = Inr None"
  "pass send4 Moved = Inr None"
  "pass send1 Temporary = Inr (Some Move_ctor)"
  "pass send2 Temporary = Inl Cannot_bind"
  "pass send3 Temporary = Inr None"
  "pass send4 Temporary = Inr None"
  by (simp_all add: send1_def send2_def send3_def send4_def resolve_cases)

text \<open>
  Claim C4. Making a \<open>Buffer\<close> from an lvalue \<open>Buffer\<close>, assigning an lvalue
  \<open>Buffer\<close>, and passing a named \<open>Buffer\<close> by value each select a deleted function:
  the program is rejected when it is compiled, and the deleted functions have no body
  that could run. Whatever use is accepted is a move, from an rvalue. The function a move
  runs allocates no block, copies no byte and adds no block to the heap, so it makes no
  deep copy, and it keeps every block with at most one owner. More generally no
  operation on handles, run in a state where the ownership invariant holds, gives a block
  a second owner.
\<close>

theorem no_duplication:
  "resolve Init Lvalue = Inl (Use_of_deleted Copy_ctor) \<and>
   resolve Assign Lvalue = Inl (Use_of_deleted Copy_assign) \<and>
   pass By_value Named = Inl (Use_of_deleted Copy_ctor) \<and>
   body Copy_ctor = None \<and> body Copy_assign = None \<and>
   (resolve r c = Inr k \<longrightarrow> c = Rvalue \<and> (k = Move_ctor \<or> k = Move_assign)) \<and>
   (body k = Some f \<longrightarrow> f this other s = Inr s' \<longrightarrow>
      (exclusive s \<longrightarrow> exclusive s') \<and>
      nextblock s' = nextblock s \<and> copied s' = copied s \<and> dom (heap s') \<subseteq> dom (heap s)) \<and>
   (owned_inv s \<longrightarrow> step x s = Inr t \<longrightarrow> exclusive t)"
proof -
  have 1: "resolve r c = Inr k \<longrightarrow> c = Rvalue \<and> (k = Move_ctor \<or> k = Move_assign)"
    by (cases r; cases c) (auto simp add: resolve_cases)
  have 2: "exclusive s'" if "body k = Some f" "f this other s = Inr s'" "exclusive s"
    using that exclusive_Buffer_move [of s this other s']
      exclusive_Buffer_move_assign [of s this other s']
    by (cases k) auto
  have 3: "owned_inv s \<longrightarrow> step x s = Inr t \<longrightarrow> exclusive t"
    using step_owned_inv [of s x t] by (auto simp add: owned_inv_def)
  from 1 2 3 transfer_no_copy [of k f this other s s'] show ?thesis
    by (simp add: resolve_cases)
qed

text \<open>
  Witness for C4: initialising from an rvalue selects the move constructor; run on the
  handle of \<open>one_handle\<close> it keeps ownership exclusive, allocates nothing and copies
  nothing; and the construction of \<open>Buffer("buffer1")\<close> in a fresh state keeps
  ownership exclusive.
\<close>

theorem no_duplication_witness:
  "resolve Init Rvalue = Inr Move_ctor \<and>
   body Move_ctor = Some Buffer_move \<and>
   exclusive one_handle \<and>
   (\<exists>s'. Buffer_move 1 0 one_handle = Inr s' \<and>
      exclusive s' \<and> nextblock s' = 1 \<and> copied s' = 3 \<and> dom (heap s') \<subseteq> {0}) \<and>
   owned_inv (start 64) \<and>
   (\<exists>s1. step (Construct_str 0 (literal ''buffer1'')) (start 64) = Inr s1 \<and> exclusive s1)"
proof -
  have r: "resolve Init Rvalue = Inr Move_ctor" by (rule resolve_cases)
  have b: "body Move_ctor = Some Buffer_move" by simp
  have e: "exclusive one_handle"
    by (auto simp add: exclusive_def owns_def one_handle_def split: if_splits)
  obtain s' where m: "Buffer_move 1 0 one_handle = Inr s'"
    by (simp add: Buffer_move_def one_handle_def)
  have i: "owned_inv (start 64)" by (rule owned_inv_start)
  obtain s1 where c: "step (Construct_str 0 (literal ''buffer1'')) (start 64) = Inr s1"
    by (simp add: start_def literal_def Buffer_str_def strlen_def Buffer_n_def
        operator_new_def)
  from no_duplication [where k = Move_ctor and f = Buffer_move and this = 1 and other = 0
      and s = one_handle and s' = s'] b e m
  have "exclusive s'" "nextblock s' = nextblock one_handle" "copied s' = copied one_handle"
    "dom (heap s') \<subseteq> dom (heap one_handle)"
    by blast+
  moreover from no_duplication [where s = "start 64"
      and x = "Construct_str 0 (literal ''buffer1'')" and t = s1] i c
  have "exclusive s1" by blast
  ultimately have "exclusive s'" "nextblock s' = nextblock one_handle"
    "copied s' = copied one_handle" "dom (heap s') \<subseteq> dom (heap one_handle)" "exclusive s1"
    by blast+
  then have "exclusive s'" "nextblock s' = 1" "copied s' = 3" "dom (heap s') \<subseteq> {0}"
    "exclusive s1"
    by (simp_all add: one_handle_def)
  with r b e m i c show ?thesis by blast
qed

end
